theory Spec2Isabelle
  imports Complex_Main
begin

section \<open>Scalars, vectors and matrices\<close>

text \<open>
  A \<^verbatim>\<open>double\<close> is a finite value, one of the two infinities, or not-a-number.
  Finite arithmetic is exact (reals): rounding, overflow of finite results and the
  sign of zero are outside the model. The special values follow IEEE 754, which is
  what \<^verbatim>\<open>-INFINITY\<close>, a division by zero or the logarithm of a non-positive
  number produce in the program.
\<close>

datatype double = Fin real | PInf | NInf | NaN

fun dneg :: "double \<Rightarrow> double" where
  "dneg (Fin x) = Fin (- x)"
| "dneg PInf = NInf"
| "dneg NInf = PInf"
| "dneg NaN = NaN"

fun dadd :: "double \<Rightarrow> double \<Rightarrow> double" where
  "dadd (Fin x) (Fin y) = Fin (x + y)"
| "dadd (Fin x) PInf = PInf"
| "dadd (Fin x) NInf = NInf"
| "dadd PInf (Fin y) = PInf"
| "dadd PInf PInf = PInf"
| "dadd PInf NInf = NaN"
| "dadd NInf (Fin y) = NInf"
| "dadd NInf PInf = NaN"
| "dadd NInf NInf = NInf"
| "dadd NaN b = NaN"
| "dadd a NaN = NaN"

definition dsub :: "double \<Rightarrow> double \<Rightarrow> double" where
  "dsub a b = dadd a (dneg b)"

fun dmul :: "double \<Rightarrow> double \<Rightarrow> double" where
  "dmul (Fin x) (Fin y) = Fin (x * y)"
| "dmul (Fin x) PInf = (if x = 0 then NaN else if 0 < x then PInf else NInf)"
| "dmul (Fin x) NInf = (if x = 0 then NaN else if 0 < x then NInf else PInf)"
| "dmul PInf (Fin y) = (if y = 0 then NaN else if 0 < y then PInf else NInf)"
| "dmul NInf (Fin y) = (if y = 0 then NaN else if 0 < y then NInf else PInf)"
| "dmul PInf PInf = PInf"
| "dmul PInf NInf = NInf"
| "dmul NInf PInf = NInf"
| "dmul NInf NInf = PInf"
| "dmul NaN b = NaN"
| "dmul a NaN = NaN"

fun ddiv :: "double \<Rightarrow> double \<Rightarrow> double" where
  "ddiv (Fin x) (Fin y) =
     (if y = 0 then (if x = 0 then NaN else if 0 < x then PInf else NInf)
      else Fin (x / y))"
| "ddiv (Fin x) PInf = Fin 0"
| "ddiv (Fin x) NInf = Fin 0"
| "ddiv PInf (Fin y) = (if 0 \<le> y then PInf else NInf)"
| "ddiv NInf (Fin y) = (if 0 \<le> y then NInf else PInf)"
| "ddiv PInf PInf = NaN"
| "ddiv PInf NInf = NaN"
| "ddiv NInf PInf = NaN"
| "ddiv NInf NInf = NaN"
| "ddiv NaN b = NaN"
| "ddiv a NaN = NaN"

fun dexp :: "double \<Rightarrow> double" where
  "dexp (Fin x) = Fin (exp x)"
| "dexp PInf = PInf"
| "dexp NInf = Fin 0"
| "dexp NaN = NaN"

fun dlog :: "double \<Rightarrow> double" where
  "dlog (Fin x) = (if x = 0 then NInf else if x < 0 then NaN else Fin (ln x))"
| "dlog PInf = PInf"
| "dlog NInf = NaN"
| "dlog NaN = NaN"

text \<open>The macro \<^verbatim>\<open>TWOLNPI\<close> of the source, the literal for \<open>ln (2 \<pi>)\<close>.\<close>

definition TWOLNPI :: double where
  "TWOLNPI = Fin (18378770664093453 / 10000000000000000)"

type_synonym vec = "double list"
type_synonym matrix = "double list list"

text \<open>
  Eigen checks sizes and indices with assertions; a failed assertion ends the
  program. These are the faults of the model.
\<close>

datatype fault = SizeMismatch | IndexOutOfRange

text \<open>
  \<^verbatim>\<open>VectorXd v(n)\<close> and \<^verbatim>\<open>MatrixXd m(r, c)\<close> allocate without initialising. The
  content of the fresh storage is a parameter \<open>u\<close> of every operation that allocates.
\<close>

type_synonym storage = "nat \<Rightarrow> nat \<Rightarrow> double"

definition VectorXd :: "nat \<Rightarrow> storage \<Rightarrow> vec" where
  "VectorXd n u = map (u 0) [0..<n]"

definition MatrixXd :: "nat \<Rightarrow> nat \<Rightarrow> storage \<Rightarrow> matrix" where
  "MatrixXd r c u = map (\<lambda>i. map (u i) [0..<c]) [0..<r]"

definition dsum :: "vec \<Rightarrow> double" where
  "dsum xs = foldr dadd xs (Fin 0)"

text \<open>\<^verbatim>\<open>a - b\<close> on vectors.\<close>

definition vsub :: "vec \<Rightarrow> vec \<Rightarrow> fault + vec" where
  "vsub a b = (if length a = length b then Inr (map2 dsub a b) else Inl SizeMismatch)"

text \<open>\<^verbatim>\<open>a.dot(b)\<close>, also \<^verbatim>\<open>a.transpose() * b\<close>.\<close>

definition dot :: "vec \<Rightarrow> vec \<Rightarrow> fault + double" where
  "dot a b = (if length a = length b then Inr (dsum (map2 dmul a b)) else Inl SizeMismatch)"

text \<open>\<^verbatim>\<open>v[i]\<close> and \<^verbatim>\<open>v(i)\<close>.\<close>

definition coeff :: "vec \<Rightarrow> nat \<Rightarrow> fault + double" where
  "coeff v i = (if i < length v then Inr (v ! i) else Inl IndexOutOfRange)"

text \<open>\<^verbatim>\<open>m(i, j) = v\<close>; the program only writes inside the matrix it allocated.\<close>

definition mat_set :: "matrix \<Rightarrow> nat \<Rightarrow> nat \<Rightarrow> double \<Rightarrow> matrix" where
  "mat_set m i j v = m[i := (m ! i)[j := v]]"

definition mtrace :: "matrix \<Rightarrow> double" where
  "mtrace m = dsum (map (\<lambda>i. m ! i ! i) [0..<length m])"

section \<open>Kernels\<close>

text \<open>
  The two kernel classes of the source, each holding its parameter vector
  \<^verbatim>\<open>pars_\<close>; the virtual methods dispatch on the class.
\<close>

datatype kernel = Kernel vec | IsotropicGaussianKernel vec

fun pars :: "kernel \<Rightarrow> vec" where
  "pars (Kernel p) = p"
| "pars (IsotropicGaussianKernel p) = p"

definition npars :: "kernel \<Rightarrow> nat" where
  "npars k = length (pars k)"

fun evaluate :: "kernel \<Rightarrow> vec \<Rightarrow> vec \<Rightarrow> fault + double" where
  "evaluate (Kernel p) x1 x2 = Inr (Fin 0)"
| "evaluate (IsotropicGaussianKernel p) x1 x2 =
     (case vsub x1 x2 of Inl f \<Rightarrow> Inl f | Inr d \<Rightarrow>
     (case dot d d of Inl f \<Rightarrow> Inl f | Inr dd \<Rightarrow>
     (case coeff p 1 of Inl f \<Rightarrow> Inl f | Inr p1 \<Rightarrow>
     (let chi2 = ddiv dd p1 in
     (case coeff p 0 of Inl f \<Rightarrow> Inl f | Inr p0 \<Rightarrow>
      Inr (dmul p0 (dexp (dmul (Fin (- (1 / 2))) chi2))))))))"

fun gradient :: "storage \<Rightarrow> kernel \<Rightarrow> vec \<Rightarrow> vec \<Rightarrow> fault + vec" where
  "gradient u (Kernel p) x1 x2 = Inr (replicate (length p) (Fin 0))"
| "gradient u (IsotropicGaussianKernel p) x1 x2 =
     (case vsub x1 x2 of Inl f \<Rightarrow> Inl f | Inr d \<Rightarrow>
     (let grad = VectorXd (length p) u in
     (case dot d d of Inl f \<Rightarrow> Inl f | Inr dd \<Rightarrow>
     (case coeff p 1 of Inl f \<Rightarrow> Inl f | Inr p1 \<Rightarrow>
     (let e = ddiv (dmul (Fin (- (1 / 2))) dd) p1;
          value = dexp e;
          grad = grad[0 := value]
      in (case coeff p 0 of Inl f \<Rightarrow> Inl f | Inr p0 \<Rightarrow>
      Inr (grad[1 := dmul (dmul (ddiv (dneg e) p1) p0) value])))))))"

text \<open>The squared Euclidean distance \<open>||x1 - x2||\<^sup>2\<close>.\<close>

definition sqdist :: "vec \<Rightarrow> vec \<Rightarrow> double" where
  "sqdist x1 x2 = dsum (map2 (\<lambda>a b. dmul (dsub a b) (dsub a b)) x1 x2)"

section \<open>The factorization collaborator\<close>

text \<open>
  \<^verbatim>\<open>Eigen::LDLT<MatrixXd>\<close> is not part of the repository. Its operations are a
  parameter of the model; \<open>'f\<close> is the type of a factorization object.
  \<^item> \<open>ldlt_default\<close> is the default-constructed object \<^verbatim>\<open>LDLT<MatrixXd>()\<close>;
  \<^item> \<open>ldlt_compute K\<close> is \<^verbatim>\<open>LDLT<MatrixXd>(K)\<close>;
  \<^item> \<open>ldlt_success L\<close> is \<^verbatim>\<open>L.info() == Success\<close>; \<^verbatim>\<open>solve\<close> is a constant
    method, so the status read after a solve is the status of the factorization;
  \<^item> \<open>ldlt_solve L y\<close> and \<open>ldlt_solve_matrix L m\<close> are \<^verbatim>\<open>L.solve\<close> on a vector and on
    a matrix;
  \<^item> \<open>ldlt_vectorD L\<close> is \<^verbatim>\<open>L.vectorD()\<close>.
\<close>

record 'f ldlt =
  ldlt_default :: 'f
  ldlt_compute :: "matrix \<Rightarrow> 'f"
  ldlt_success :: "'f \<Rightarrow> bool"
  ldlt_solve :: "'f \<Rightarrow> vec \<Rightarrow> vec"
  ldlt_solve_matrix :: "'f \<Rightarrow> matrix \<Rightarrow> matrix"
  ldlt_vectorD :: "'f \<Rightarrow> vec"

section \<open>The Gaussian process\<close>

text \<open>The members \<^verbatim>\<open>kernel_\<close>, \<^verbatim>\<open>info_\<close>, \<^verbatim>\<open>computed_\<close>, \<^verbatim>\<open>x_\<close> and \<^verbatim>\<open>L_\<close>.\<close>

record 'f GaussianProcess =
  gp_kernel :: kernel
  gp_info :: int
  gp_computed :: bool
  gp_x :: matrix
  gp_L :: 'f

definition GaussianProcess :: "'f ldlt \<Rightarrow> kernel \<Rightarrow> 'f GaussianProcess" where
  "GaussianProcess B k =
     \<lparr>gp_kernel = k, gp_info = 0, gp_computed = False, gp_x = [], gp_L = ldlt_default B\<rparr>"

text \<open>The accessors; the source returns the flag converted to \<^verbatim>\<open>int\<close>.\<close>

definition info :: "'f GaussianProcess \<Rightarrow> int" where
  "info gp = gp_info gp"

definition computed :: "'f GaussianProcess \<Rightarrow> bool" where
  "computed gp = gp_computed gp"

subsection \<open>compute\<close>

text \<open>
  A method returns its result together with the instance as it leaves it. A fault ends
  the program, so it comes with no instance.
\<close>

text \<open>The loop over \<open>j\<close> from \<open>i + 1\<close>, on the indices still to visit.\<close>

fun compute_cols :: "kernel \<Rightarrow> matrix \<Rightarrow> nat \<Rightarrow> nat list \<Rightarrow> matrix \<Rightarrow> fault + matrix" where
  "compute_cols k x i [] Kxx = Inr Kxx"
| "compute_cols k x i (j # js) Kxx =
     (case evaluate k (x ! i) (x ! j) of Inl f \<Rightarrow> Inl f | Inr value \<Rightarrow>
      compute_cols k x i js (mat_set (mat_set Kxx i j value) j i value))"

text \<open>The loop over \<open>i\<close>.\<close>

fun compute_rows ::
  "kernel \<Rightarrow> matrix \<Rightarrow> vec \<Rightarrow> nat \<Rightarrow> nat list \<Rightarrow> matrix \<Rightarrow> fault + matrix" where
  "compute_rows k x yerr nsamples [] Kxx = Inr Kxx"
| "compute_rows k x yerr nsamples (i # is) Kxx =
     (case compute_cols k x i [Suc i..<nsamples] Kxx of Inl f \<Rightarrow> Inl f | Inr Kxx \<Rightarrow>
     (case evaluate k (x ! i) (x ! i) of Inl f \<Rightarrow> Inl f | Inr kii \<Rightarrow>
     (case coeff yerr i of Inl f \<Rightarrow> Inl f | Inr e \<Rightarrow>
      compute_rows k x yerr nsamples is (mat_set Kxx i i (dadd kii (dmul e e))))))"

text \<open>The covariance matrix that \<^verbatim>\<open>compute\<close> hands to the factorization.\<close>

definition covariance :: "storage \<Rightarrow> kernel \<Rightarrow> matrix \<Rightarrow> vec \<Rightarrow> fault + matrix" where
  "covariance u k x yerr =
     (let nsamples = length x
      in compute_rows k x yerr nsamples [0..<nsamples] (MatrixXd nsamples nsamples u))"

definition compute ::
  "'f ldlt \<Rightarrow> storage \<Rightarrow> 'f GaussianProcess \<Rightarrow> matrix \<Rightarrow> vec
     \<Rightarrow> fault + (int \<times> 'f GaussianProcess)" where
  "compute B u gp x yerr =
     (let gp = gp\<lparr>gp_x := x\<rparr>
      in case covariance u (gp_kernel gp) x yerr of Inl f \<Rightarrow> Inl f | Inr Kxx \<Rightarrow>
        (let gp = gp\<lparr>gp_L := ldlt_compute B Kxx\<rparr>
         in if \<not> ldlt_success B (gp_L gp) then Inr (- 1, gp)
            else Inr (0, gp\<lparr>gp_computed := True\<rparr>)))"

subsection \<open>lnlikelihood\<close>

definition lnlikelihood ::
  "'f ldlt \<Rightarrow> 'f GaussianProcess \<Rightarrow> vec \<Rightarrow> fault + (double \<times> 'f GaussianProcess)" where
  "lnlikelihood B gp y =
     (if \<not> gp_computed gp \<or> length y \<noteq> length (gp_x gp) then Inr (NInf, gp)
      else let alpha = ldlt_solve B (gp_L gp) y
        in if \<not> ldlt_success B (gp_L gp) then Inr (NInf, gp)
           else let logdet = dsum (map dlog (ldlt_vectorD B (gp_L gp)))
             in case dot y alpha of Inl f \<Rightarrow> Inl f | Inr ya \<Rightarrow>
               Inr (dmul (Fin (- (1 / 2)))
                      (dadd (dadd ya logdet) (dmul (Fin (real (length y))) TWOLNPI)), gp))"

subsection \<open>gradlnlikelihood\<close>

text \<open>The loop over \<open>k\<close> that stores one kernel gradient into the matrices.\<close>

fun grad_fill :: "vec \<Rightarrow> nat \<Rightarrow> nat \<Rightarrow> nat list \<Rightarrow> matrix list \<Rightarrow> fault + matrix list" where
  "grad_fill grad i j [] dkdt = Inr dkdt"
| "grad_fill grad i j (k # ks) dkdt =
     (case coeff grad k of Inl f \<Rightarrow> Inl f | Inr g \<Rightarrow>
      (let m = mat_set (dkdt ! k) i j g;
           m = (if j > i then mat_set m j i g else m)
       in grad_fill grad i j ks (dkdt[k := m])))"

text \<open>The loop over \<open>j\<close> from \<open>i\<close>.\<close>

fun grad_cols ::
  "storage \<Rightarrow> kernel \<Rightarrow> matrix \<Rightarrow> nat \<Rightarrow> nat list \<Rightarrow> vec \<times> matrix list
     \<Rightarrow> fault + vec \<times> matrix list" where
  "grad_cols u k x i [] (grad, dkdt) = Inr (grad, dkdt)"
| "grad_cols u k x i (j # js) (grad, dkdt) =
     (case gradient u k (x ! i) (x ! j) of Inl f \<Rightarrow> Inl f | Inr grad \<Rightarrow>
     (case grad_fill grad i j [0..<npars k] dkdt of Inl f \<Rightarrow> Inl f | Inr dkdt \<Rightarrow>
      grad_cols u k x i js (grad, dkdt)))"

text \<open>The loop over \<open>i\<close>.\<close>

fun grad_rows ::
  "storage \<Rightarrow> kernel \<Rightarrow> matrix \<Rightarrow> nat \<Rightarrow> nat list \<Rightarrow> vec \<times> matrix list
     \<Rightarrow> fault + vec \<times> matrix list" where
  "grad_rows u k x nsamples [] (grad, dkdt) = Inr (grad, dkdt)"
| "grad_rows u k x nsamples (i # is) (grad, dkdt) =
     (case grad_cols u k x i [i..<nsamples] (grad, dkdt) of Inl f \<Rightarrow> Inl f | Inr gd \<Rightarrow>
      grad_rows u k x nsamples is gd)"

text \<open>The loop \<^verbatim>\<open>grad(k) -= alpha(i) * alpha.dot(dkdt[k].row(i))\<close>.\<close>

fun quad_loop :: "vec \<Rightarrow> matrix \<Rightarrow> nat list \<Rightarrow> double \<Rightarrow> fault + double" where
  "quad_loop alpha m [] g = Inr g"
| "quad_loop alpha m (i # is) g =
     (case coeff alpha i of Inl f \<Rightarrow> Inl f | Inr ai \<Rightarrow>
     (case dot alpha (m ! i) of Inl f \<Rightarrow> Inl f | Inr d \<Rightarrow>
      quad_loop alpha m is (dsub g (dmul ai d))))"

text \<open>The last loop over \<open>k\<close>.\<close>

fun grad_final ::
  "'f ldlt \<Rightarrow> 'f \<Rightarrow> vec \<Rightarrow> nat \<Rightarrow> nat list \<Rightarrow> matrix list \<Rightarrow> vec \<Rightarrow> fault + vec" where
  "grad_final B L alpha nsamples [] dkdt grad = Inr grad"
| "grad_final B L alpha nsamples (k # ks) dkdt grad =
     (if \<not> k < length grad then Inl IndexOutOfRange
      else case quad_loop alpha (dkdt ! k) [0..<nsamples]
                  (mtrace (ldlt_solve_matrix B L (dkdt ! k))) of
             Inl f \<Rightarrow> Inl f
           | Inr g \<Rightarrow> grad_final B L alpha nsamples ks dkdt (grad[k := dmul g (Fin (- (1 / 2)))]))"

text \<open>
  The first loop gives each of the \<open>npars\<close> matrices of \<^verbatim>\<open>dkdt\<close> fresh
  \<open>nsamples\<close>-by-\<open>nsamples\<close> storage. On its successful path the method does not write
  the status code.
\<close>

definition gradlnlikelihood ::
  "'f ldlt \<Rightarrow> storage \<Rightarrow> 'f GaussianProcess \<Rightarrow> vec \<Rightarrow> fault + (vec \<times> 'f GaussianProcess)" where
  "gradlnlikelihood B u gp y =
     (let nsamples = length y; np = npars (gp_kernel gp);
          grad = VectorXd np u
      in if \<not> gp_computed gp \<or> length y \<noteq> length (gp_x gp)
         then Inr (grad, gp\<lparr>gp_info := - 1\<rparr>)
         else let alpha = ldlt_solve B (gp_L gp) y
           in if \<not> ldlt_success B (gp_L gp) then Inr (grad, gp\<lparr>gp_info := - 2\<rparr>)
              else let dkdt = replicate np (MatrixXd nsamples nsamples u)
                in case grad_rows u (gp_kernel gp) (gp_x gp) nsamples [0..<nsamples] (grad, dkdt) of
                     Inl f \<Rightarrow> Inl f
                   | Inr (grad, dkdt) \<Rightarrow>
                      (case grad_final B (gp_L gp) alpha nsamples [0..<np] dkdt grad of
                         Inl f \<Rightarrow> Inl f
                       | Inr grad \<Rightarrow> Inr (grad, gp)))"

section \<open>A collaborator for diagonal systems\<close>

text \<open>
  To run the model on concrete inputs the collaborator has to be instantiated. This
  one factors diagonal matrices only: \<open>L\<close> is the identity, \<open>D\<close> is the diagonal,
  a solve divides by the diagonal, and every other matrix is reported as a failure.
\<close>

definition diagonal :: "matrix \<Rightarrow> vec" where
  "diagonal m = map (\<lambda>i. m ! i ! i) [0..<length m]"

definition is_diagonal :: "matrix \<Rightarrow> bool" where
  "is_diagonal m =
     list_all (\<lambda>i. list_all (\<lambda>j. i = j \<or> m ! i ! j = Fin 0) [0..<length m]) [0..<length m]"

definition diag_ldlt :: "matrix ldlt" where
  "diag_ldlt =
     \<lparr>ldlt_default = [],
      ldlt_compute = (\<lambda>K. K),
      ldlt_success = is_diagonal,
      ldlt_solve = (\<lambda>K y. map2 (\<lambda>d v. ddiv v d) (diagonal K) y),
      ldlt_solve_matrix = (\<lambda>K M. map2 (\<lambda>d row. map (\<lambda>v. ddiv v d) row) (diagonal K) M),
      ldlt_vectorD = diagonal\<rparr>"

section \<open>Notions of the statements\<close>

text \<open>An \<open>n\<close>-by-\<open>n\<close> matrix.\<close>

definition square :: "nat \<Rightarrow> matrix \<Rightarrow> bool" where
  "square n m = (length m = n \<and> list_all (\<lambda>r. length r = n) m)"

text \<open>
  A kernel whose parameter vector is long enough for its class: the isotropic kernel
  reads \<^verbatim>\<open>pars_[0]\<close> and \<^verbatim>\<open>pars_[1]\<close>.
\<close>

definition kernel_ok :: "kernel \<Rightarrow> bool" where
  "kernel_ok k = (case k of Kernel p \<Rightarrow> True | IsotropicGaussianKernel p \<Rightarrow> 2 \<le> length p)"

text \<open>The kernel, evaluated at rows \<open>i\<close> and \<open>j\<close> of \<open>x\<close>, returns \<open>w\<close>.\<close>

definition evaluates :: "kernel \<Rightarrow> matrix \<Rightarrow> nat \<Rightarrow> nat \<Rightarrow> double \<Rightarrow> bool" where
  "evaluates k x i j w = (evaluate k (x ! i) (x ! j) = Inr w)"

text \<open>
  \<open>w\<close> is what entry \<open>(a, b)\<close> of the covariance matrix has to be: on the diagonal the
  kernel at the row itself plus the squared noise, elsewhere the kernel at the two rows,
  evaluated once with the smaller index first.
\<close>

definition cov_entry :: "kernel \<Rightarrow> matrix \<Rightarrow> vec \<Rightarrow> nat \<Rightarrow> nat \<Rightarrow> double \<Rightarrow> bool" where
  "cov_entry k x yerr a b w =
     (if a = b then \<exists>v e. evaluates k x a a v \<and> coeff yerr a = Inr e \<and> w = dadd v (dmul e e)
      else evaluates k x (min a b) (max a b) w)"

text \<open>
  \<open>w\<close> is component \<open>kk\<close> of the kernel gradient at rows \<open>i\<close> and \<open>j\<close> of \<open>x\<close>.
\<close>

definition grad_at :: "storage \<Rightarrow> kernel \<Rightarrow> matrix \<Rightarrow> nat \<Rightarrow> nat \<Rightarrow> nat \<Rightarrow> double \<Rightarrow> bool" where
  "grad_at u k x kk i j w = (\<exists>g. gradient u k (x ! i) (x ! j) = Inr g \<and> w = g ! kk)"

text \<open>The product of a matrix and a vector, and the quadratic form \<open>a\<^sup>T m a\<close>.\<close>

definition mat_vec :: "matrix \<Rightarrow> vec \<Rightarrow> vec" where
  "mat_vec m a = map (\<lambda>row. dsum (map2 dmul row a)) m"

definition quadform :: "vec \<Rightarrow> matrix \<Rightarrow> double" where
  "quadform a m = dsum (map2 dmul a (mat_vec m a))"

section \<open>Arithmetic of the scalars\<close>

lemma dadd_commute: "dadd a b = dadd b a"
  by (cases a; cases b) simp_all

lemma dadd_assoc: "dadd (dadd a b) c = dadd a (dadd b c)"
  by (cases a; cases b; cases c) simp_all

lemma dmul_commute: "dmul a b = dmul b a"
  by (cases a; cases b) simp_all

lemma dadd_zero_left: "dadd (Fin 0) a = a"
  by (cases a) simp_all

lemma dsq_sub: "dmul (dsub a b) (dsub a b) = dmul (dsub b a) (dsub b a)"
  by (cases a; cases b) (simp_all add: dsub_def algebra_simps)

lemma half_ddiv: "dmul (Fin (- (1 / 2))) (ddiv a s) = ddiv (dmul (Fin (- (1 / 2))) a) s"
  by (cases a; cases s) auto

lemma dneg_half: "dneg (ddiv (dmul (Fin (- (1 / 2))) a) s) = ddiv (dmul (Fin (1 / 2)) a) s"
  by (cases a; cases s) auto

lemma dot_self: "dot (map2 dsub x1 x2) (map2 dsub x1 x2) = Inr (sqdist x1 x2)"
proof -
  have "map2 dmul (map2 dsub x1 x2) (map2 dsub x1 x2)
      = map2 (\<lambda>a b. dmul (dsub a b) (dsub a b)) x1 x2"
    by (induction x1 arbitrary: x2) (auto split: list.splits simp: zip_Cons1)
  then show ?thesis by (simp add: dot_def sqdist_def)
qed

section \<open>The isotropic squared-exponential kernel\<close>

text \<open>
  C7. With parameters \<open>[amplitude, scale]\<close> and two input vectors of one length,
  \<open>evaluate\<close> is \<open>amplitude * exp (-0.5 * ||x1 - x2||\<^sup>2 / scale)\<close>, and \<open>gradient\<close> is the
  vector of \<open>exp (-0.5 * ||x1 - x2||\<^sup>2 / scale)\<close> and
  \<open>(0.5 * ||x1 - x2||\<^sup>2 / scale) / scale * amplitude * exp (-0.5 * ||x1 - x2||\<^sup>2 / scale)\<close>,
  whatever the fresh storage of the result held. Vectors of different lengths fail
  Eigen's size check.
\<close>

theorem isotropic_kernel_formulas:
  "evaluate (IsotropicGaussianKernel [amplitude, scale]) x1 x2 =
     (if length x1 = length x2
      then Inr (dmul amplitude (dexp (ddiv (dmul (Fin (- (1 / 2))) (sqdist x1 x2)) scale)))
      else Inl SizeMismatch)
   \<and> gradient u (IsotropicGaussianKernel [amplitude, scale]) x1 x2 =
     (if length x1 = length x2
      then Inr [dexp (ddiv (dmul (Fin (- (1 / 2))) (sqdist x1 x2)) scale),
                dmul (dmul (ddiv (ddiv (dmul (Fin (1 / 2)) (sqdist x1 x2)) scale) scale) amplitude)
                     (dexp (ddiv (dmul (Fin (- (1 / 2))) (sqdist x1 x2)) scale))]
      else Inl SizeMismatch)"
  by (simp add: vsub_def dot_self coeff_def half_ddiv dneg_half VectorXd_def Let_def)

theorem isotropic_kernel_formulas_witness:
  "evaluate (IsotropicGaussianKernel [Fin 2, Fin 1]) [Fin 3] [Fin 3] = Inr (Fin 2)
   \<and> gradient (\<lambda>i j. NaN) (IsotropicGaussianKernel [Fin 2, Fin 1]) [Fin 3] [Fin 3]
       = Inr [Fin 1, Fin 0]"
  using isotropic_kernel_formulas [of "Fin 2" "Fin 1" "[Fin 3]" "[Fin 3]" "\<lambda>i j. NaN"]
  by (simp add: sqdist_def dsum_def dsub_def)

section \<open>Running the model\<close>

text \<open>The definitions that \<open>simp\<close> unfolds to run the model on a concrete input.\<close>

lemmas run_defs =
  compute_def covariance_def GaussianProcess_def MatrixXd_def VectorXd_def vsub_def dot_def
  coeff_def dsum_def dsub_def mat_set_def diag_ldlt_def is_diagonal_def diagonal_def
  lnlikelihood_def gradlnlikelihood_def TWOLNPI_def info_def computed_def npars_def
  square_def kernel_ok_def mtrace_def

section \<open>The log likelihood\<close>

text \<open>
  C1. On a computed Gaussian process, for a target vector \<open>y\<close> as long as the stored
  training set and a factorization that reports success, \<open>lnlikelihood\<close> returns
  \<open>-0.5 * (y\<^sup>T alpha + logdet + n * TWOLNPI)\<close>, where \<open>alpha\<close> is the stored
  factorization's solve of \<open>y\<close> (a vector as long as \<open>y\<close>), \<open>logdet\<close> is the sum of the
  logarithms of the factorization's \<open>vectorD\<close>, and \<open>TWOLNPI\<close> is the source's
  literal for \<open>ln (2 \<pi>)\<close>.
\<close>

theorem lnlikelihood_value:
  assumes "gp_computed gp" and "length y = length (gp_x gp)"
    and "ldlt_success B (gp_L gp)"
    and "alpha = ldlt_solve B (gp_L gp) y" and "length alpha = length y"
    and "logdet = dsum (map dlog (ldlt_vectorD B (gp_L gp)))"
  shows "lnlikelihood B gp y =
           Inr (dmul (Fin (- (1 / 2)))
                  (dadd (dadd (dsum (map2 dmul y alpha)) logdet)
                        (dmul (Fin (real (length (gp_x gp)))) TWOLNPI)), gp)"
  using assms by (simp add: lnlikelihood_def dot_def)

theorem lnlikelihood_value_witness:
  "compute diag_ldlt (\<lambda>i j. NaN)
     (GaussianProcess diag_ldlt (IsotropicGaussianKernel [Fin 1, Fin 1])) [[Fin 0]] [Fin 0]
   = Inr (0, \<lparr>gp_kernel = IsotropicGaussianKernel [Fin 1, Fin 1], gp_info = 0,
              gp_computed = True, gp_x = [[Fin 0]], gp_L = [[Fin 1]]\<rparr>)
   \<and> lnlikelihood diag_ldlt
       \<lparr>gp_kernel = IsotropicGaussianKernel [Fin 1, Fin 1], gp_info = 0,
        gp_computed = True, gp_x = [[Fin 0]], gp_L = [[Fin 1]]\<rparr> [Fin 2]
     = Inr (Fin (- (1 / 2) * (4 + 18378770664093453 / 10000000000000000)),
            \<lparr>gp_kernel = IsotropicGaussianKernel [Fin 1, Fin 1], gp_info = 0,
             gp_computed = True, gp_x = [[Fin 0]], gp_L = [[Fin 1]]\<rparr>)"
  using lnlikelihood_value [of
      "\<lparr>gp_kernel = IsotropicGaussianKernel [Fin 1, Fin 1], gp_info = 0,
        gp_computed = True, gp_x = [[Fin 0]], gp_L = [[Fin 1]]\<rparr>"
      "[Fin 2]" diag_ldlt "[Fin 2]" "Fin 0"]
  by (simp add: run_defs)

text \<open>
  C5, as the code has it. \<open>lnlikelihood\<close> returns negative infinity, without a fault,
  whenever the Gaussian process is not computed, or \<open>y\<close> is not as long as the stored
  training set, or the stored factorization reports a failure. The converse does not
  hold: negative infinity is a \<^verbatim>\<open>double\<close> like any other, and the formula of the
  remaining case can evaluate to it.
\<close>

theorem lnlikelihood_sentinel:
  assumes "\<not> gp_computed gp \<or> length y \<noteq> length (gp_x gp) \<or> \<not> ldlt_success B (gp_L gp)"
  shows "lnlikelihood B gp y = Inr (NInf, gp)"
  using assms by (auto simp: lnlikelihood_def Let_def)

theorem lnlikelihood_sentinel_witness:
  "lnlikelihood diag_ldlt (GaussianProcess diag_ldlt (Kernel [])) [Fin 1]
     = Inr (NInf, GaussianProcess diag_ldlt (Kernel []))"
  using lnlikelihood_sentinel [of "GaussianProcess diag_ldlt (Kernel [])" "[Fin 1]" diag_ldlt]
  by (simp add: GaussianProcess_def)

text \<open>
  One training point at 0 without noise, amplitude and scale 1, so that the covariance
  matrix is the 1-by-1 matrix of 1; the target is positive infinity. The Gaussian
  process is computed, the lengths agree and the factorization reports success, and
  still the result is negative infinity.
\<close>

theorem lnlikelihood_sentinel_without_failure:
  "gp_computed \<lparr>gp_kernel = IsotropicGaussianKernel [Fin 1, Fin 1], gp_info = 0,
        gp_computed = True, gp_x = [[Fin 0]], gp_L = [[Fin 1]]\<rparr>
   \<and> length [PInf] = length (gp_x \<lparr>gp_kernel = IsotropicGaussianKernel [Fin 1, Fin 1],
        gp_info = 0, gp_computed = True, gp_x = [[Fin 0]], gp_L = [[Fin 1]]\<rparr>)
   \<and> ldlt_success diag_ldlt (gp_L \<lparr>gp_kernel = IsotropicGaussianKernel [Fin 1, Fin 1],
        gp_info = 0, gp_computed = True, gp_x = [[Fin 0]], gp_L = [[Fin 1]]\<rparr>)
   \<and> lnlikelihood diag_ldlt
       \<lparr>gp_kernel = IsotropicGaussianKernel [Fin 1, Fin 1], gp_info = 0,
        gp_computed = True, gp_x = [[Fin 0]], gp_L = [[Fin 1]]\<rparr> [PInf]
     = Inr (NInf,
            \<lparr>gp_kernel = IsotropicGaussianKernel [Fin 1, Fin 1], gp_info = 0,
             gp_computed = True, gp_x = [[Fin 0]], gp_L = [[Fin 1]]\<rparr>)"
  by (simp add: run_defs)

text \<open>
  C10. \<open>lnlikelihood\<close> leaves the Gaussian process as it found it: the stored
  training inputs, the factorization, the computed flag and the status code.
\<close>

theorem lnlikelihood_frame:
  assumes "lnlikelihood B gp y = Inr (v, gp')"
  shows "gp' = gp \<and> gp_x gp' = gp_x gp \<and> gp_L gp' = gp_L gp
       \<and> computed gp' = computed gp \<and> info gp' = info gp"
  using assms by (auto simp: lnlikelihood_def Let_def split: if_splits sum.splits)

theorem lnlikelihood_frame_witness:
  "lnlikelihood diag_ldlt
       \<lparr>gp_kernel = IsotropicGaussianKernel [Fin 1, Fin 1], gp_info = - 1,
        gp_computed = True, gp_x = [[Fin 0]], gp_L = [[Fin 1]]\<rparr> [Fin 0]
     = Inr (Fin (- (1 / 2) * (18378770664093453 / 10000000000000000)),
         \<lparr>gp_kernel = IsotropicGaussianKernel [Fin 1, Fin 1], gp_info = - 1,
          gp_computed = True, gp_x = [[Fin 0]], gp_L = [[Fin 1]]\<rparr>)
   \<and> info \<lparr>gp_kernel = IsotropicGaussianKernel [Fin 1, Fin 1], gp_info = - 1,
        gp_computed = True, gp_x = [[Fin 0]], gp_L = [[Fin 1 :: double]]\<rparr> = - 1"
  using lnlikelihood_frame [of diag_ldlt
      "\<lparr>gp_kernel = IsotropicGaussianKernel [Fin 1, Fin 1], gp_info = - 1,
        gp_computed = True, gp_x = [[Fin 0]], gp_L = [[Fin 1]]\<rparr>" "[Fin 0]"]
  by (simp add: run_defs)

section \<open>The status of compute\<close>

text \<open>
  C4, as the code has it. \<open>compute\<close> returns its status, 0 when the factorization
  reports success and -1 when it reports a failure, and never writes the status code:
  \<open>info\<close> after the call is \<open>info\<close> before the call.
\<close>

theorem compute_status:
  assumes "compute B u gp x yerr = Inr (status, gp')"
  shows "(status = 0 \<or> status = - 1)
       \<and> (status = 0 \<longleftrightarrow> ldlt_success B (gp_L gp'))
       \<and> info gp' = info gp"
  using assms by (auto simp: compute_def Let_def info_def split: if_splits sum.splits)

theorem compute_status_witness:
  "compute diag_ldlt (\<lambda>i j. NaN)
     \<lparr>gp_kernel = IsotropicGaussianKernel [Fin 1, Fin 1], gp_info = - 2,
      gp_computed = False, gp_x = [], gp_L = []\<rparr> [[Fin 0]] [Fin 0]
   = Inr (0, \<lparr>gp_kernel = IsotropicGaussianKernel [Fin 1, Fin 1], gp_info = - 2,
              gp_computed = True, gp_x = [[Fin 0]], gp_L = [[Fin 1]]\<rparr>)
   \<and> info \<lparr>gp_kernel = IsotropicGaussianKernel [Fin 1, Fin 1], gp_info = - 2,
              gp_computed = True, gp_x = [[Fin 0]], gp_L = [[Fin 1 :: double]]\<rparr> = - 2"
  using compute_status [of diag_ldlt "\<lambda>i j. NaN"
      "\<lparr>gp_kernel = IsotropicGaussianKernel [Fin 1, Fin 1], gp_info = - 2,
        gp_computed = False, gp_x = [], gp_L = []\<rparr>" "[[Fin 0]]" "[Fin 0]"]
  by (simp add: run_defs)

text \<open>
  A freshly constructed Gaussian process with amplitude -1 and scale 1, two training
  points at 0 with noise 1: the covariance matrix has a zero diagonal and -1 off the
  diagonal, and the factorization reports a failure. \<open>compute\<close> returns -1, and
  \<open>info\<close> is still the 0 of the constructor.
\<close>

theorem compute_failure_info_unchanged:
  "compute diag_ldlt (\<lambda>i j. NaN)
     (GaussianProcess diag_ldlt (IsotropicGaussianKernel [Fin (- 1), Fin 1]))
     [[Fin 0], [Fin 0]] [Fin 1, Fin 1]
   = Inr (- 1, \<lparr>gp_kernel = IsotropicGaussianKernel [Fin (- 1), Fin 1], gp_info = 0,
               gp_computed = False, gp_x = [[Fin 0], [Fin 0]],
               gp_L = [[Fin 0, Fin (- 1)], [Fin (- 1), Fin 0]]\<rparr>)
   \<and> info \<lparr>gp_kernel = IsotropicGaussianKernel [Fin (- 1), Fin 1], gp_info = 0,
               gp_computed = False, gp_x = [[Fin 0], [Fin 0]],
               gp_L = [[Fin 0, Fin (- 1)], [Fin (- 1), Fin 0]]\<rparr> = 0"
  by (simp add: run_defs)

text \<open>
  C3. The same failing call after a successful one (one training point at 0 with
  noise 2, covariance 3): \<open>compute\<close> returns -1 and \<open>computed\<close> is still true. The
  return on failure comes before any write to the flag, so the flag keeps the value
  of the earlier success.
\<close>

theorem compute_failure_after_success:
  "compute diag_ldlt (\<lambda>i j. NaN)
     (GaussianProcess diag_ldlt (IsotropicGaussianKernel [Fin (- 1), Fin 1])) [[Fin 0]] [Fin 2]
   = Inr (0, \<lparr>gp_kernel = IsotropicGaussianKernel [Fin (- 1), Fin 1], gp_info = 0,
              gp_computed = True, gp_x = [[Fin 0]], gp_L = [[Fin 3]]\<rparr>)
   \<and> compute diag_ldlt (\<lambda>i j. NaN)
       \<lparr>gp_kernel = IsotropicGaussianKernel [Fin (- 1), Fin 1], gp_info = 0,
        gp_computed = True, gp_x = [[Fin 0]], gp_L = [[Fin 3]]\<rparr>
       [[Fin 0], [Fin 0]] [Fin 1, Fin 1]
     = Inr (- 1, \<lparr>gp_kernel = IsotropicGaussianKernel [Fin (- 1), Fin 1], gp_info = 0,
                 gp_computed = True, gp_x = [[Fin 0], [Fin 0]],
                 gp_L = [[Fin 0, Fin (- 1)], [Fin (- 1), Fin 0]]\<rparr>)
   \<and> computed \<lparr>gp_kernel = IsotropicGaussianKernel [Fin (- 1), Fin 1], gp_info = 0,
                 gp_computed = True, gp_x = [[Fin 0], [Fin 0]],
                 gp_L = [[Fin 0, Fin (- 1)], [Fin (- 1), Fin 0]]\<rparr>"
  by (simp add: run_defs)

section \<open>The failures of gradlnlikelihood\<close>

text \<open>
  C8. When the Gaussian process is not computed or \<open>y\<close> is not as long as the stored
  training set, \<open>gradlnlikelihood\<close> sets the status code to -1; when the stored
  factorization reports a failure it sets the status code to -2. In both cases it
  returns the result vector as it was allocated, \<open>npars\<close> entries nothing has written.
\<close>

theorem gradlnlikelihood_failure:
  "(\<not> gp_computed gp \<or> length y \<noteq> length (gp_x gp) \<longrightarrow>
      gradlnlikelihood B u gp y = Inr (VectorXd (npars (gp_kernel gp)) u, gp\<lparr>gp_info := - 1\<rparr>)
      \<and> info (gp\<lparr>gp_info := - 1\<rparr>) = - 1)
   \<and> (gp_computed gp \<and> length y = length (gp_x gp) \<and> \<not> ldlt_success B (gp_L gp) \<longrightarrow>
      gradlnlikelihood B u gp y = Inr (VectorXd (npars (gp_kernel gp)) u, gp\<lparr>gp_info := - 2\<rparr>)
      \<and> info (gp\<lparr>gp_info := - 2\<rparr>) = - 2)"
  by (auto simp: gradlnlikelihood_def Let_def info_def)

theorem gradlnlikelihood_failure_witness:
  "gradlnlikelihood diag_ldlt (\<lambda>i j. NaN)
     (GaussianProcess diag_ldlt (IsotropicGaussianKernel [Fin 1, Fin 1])) [Fin 1]
   = Inr ([NaN, NaN],
          \<lparr>gp_kernel = IsotropicGaussianKernel [Fin 1, Fin 1], gp_info = - 1,
           gp_computed = False, gp_x = [], gp_L = []\<rparr>)
   \<and> gradlnlikelihood diag_ldlt (\<lambda>i j. NaN)
       \<lparr>gp_kernel = IsotropicGaussianKernel [Fin (- 1), Fin 1], gp_info = 0,
        gp_computed = True, gp_x = [[Fin 0], [Fin 0]],
        gp_L = [[Fin 0, Fin (- 1)], [Fin (- 1), Fin 0]]\<rparr> [Fin 1, Fin 1]
     = Inr ([NaN, NaN],
          \<lparr>gp_kernel = IsotropicGaussianKernel [Fin (- 1), Fin 1], gp_info = - 2,
           gp_computed = True, gp_x = [[Fin 0], [Fin 0]],
           gp_L = [[Fin 0, Fin (- 1)], [Fin (- 1), Fin 0]]\<rparr>)"
  using gradlnlikelihood_failure [of
      "GaussianProcess diag_ldlt (IsotropicGaussianKernel [Fin 1, Fin 1])" "[Fin 1]"
      diag_ldlt "\<lambda>i j. NaN"]
    gradlnlikelihood_failure [of
      "\<lparr>gp_kernel = IsotropicGaussianKernel [Fin (- 1), Fin 1], gp_info = 0,
        gp_computed = True, gp_x = [[Fin 0], [Fin 0]],
        gp_L = [[Fin 0, Fin (- 1)], [Fin (- 1), Fin 0]]\<rparr>" "[Fin 1, Fin 1]"
      diag_ldlt "\<lambda>i j. NaN"]
  by (simp add: run_defs)

section \<open>The covariance matrix\<close>

lemma square_row: "square n m \<Longrightarrow> i < n \<Longrightarrow> length (m ! i) = n"
  by (simp add: square_def list_all_length)

lemma square_length: "square n m \<Longrightarrow> length m = n"
  by (simp add: square_def)

lemma square_MatrixXd: "square n (MatrixXd n n u)"
  by (simp add: square_def MatrixXd_def list_all_length)

lemma square_mat_set: "square n m \<Longrightarrow> square n (mat_set m i j v)"
proof -
  assume sq: "square n m"
  have "length (mat_set m i j v ! a) = n" if "a < n" for a
  proof (cases "a = i")
    case True
    then show ?thesis using sq that by (simp add: mat_set_def square_def list_all_length)
  next
    case False
    then show ?thesis using sq that by (simp add: mat_set_def square_def list_all_length)
  qed
  then show ?thesis using sq by (simp add: square_def list_all_length mat_set_def)
qed

lemma nth_mat_set:
  "square n m \<Longrightarrow> i < n \<Longrightarrow> j < n \<Longrightarrow>
   mat_set m i j v ! a ! b = (if a = i \<and> b = j then v else m ! a ! b)"
  by (cases "a = i"; cases "b = j") (simp_all add: square_def mat_set_def list_all_length)

lemma square_eqI:
  assumes "square n m" and "square n m'" and "\<And>a b. a < n \<Longrightarrow> b < n \<Longrightarrow> m ! a ! b = m' ! a ! b"
  shows "m = m'"
proof (rule nth_equalityI)
  show "length m = length m'" using assms(1,2) by (simp add: square_def)
next
  fix a assume "a < length m"
  then have a: "a < n" using assms(1) by (simp add: square_def)
  show "m ! a = m' ! a"
  proof (rule nth_equalityI)
    show "length (m ! a) = length (m' ! a)" using a assms(1,2) by (simp add: square_row)
  next
    fix b assume "b < length (m ! a)"
    then have "b < n" using a assms(1) by (simp add: square_row)
    then show "m ! a ! b = m' ! a ! b" using a assms(3) by simp
  qed
qed

lemma compute_cols_result:
  assumes "compute_cols k x i js K = Inr M" and "square n K" and "i < n"
    and "\<forall>j\<in>set js. i < j \<and> j < n"
  shows "square n M \<and>
    (\<forall>a<n. \<forall>b<n.
       if a = i \<and> b \<in> set js then evaluates k x i b (M ! a ! b)
       else if b = i \<and> a \<in> set js then evaluates k x i a (M ! a ! b)
       else M ! a ! b = K ! a ! b)"
  using assms
proof (induction js arbitrary: K)
  case Nil
  then show ?case by simp
next
  case (Cons j js)
  from Cons.prems(1) obtain v where v: "evaluates k x i j v"
    and rest: "compute_cols k x i js (mat_set (mat_set K i j v) j i v) = Inr M"
    by (auto simp: evaluates_def split: sum.splits)
  let ?K1 = "mat_set (mat_set K i j v) j i v"
  have j: "j < n" "i < j" using Cons.prems(4) by simp_all
  have sq1: "square n ?K1" using Cons.prems(2) by (simp add: square_mat_set)
  have K1: "?K1 ! a ! b =
      (if a = j \<and> b = i then v else if a = i \<and> b = j then v else K ! a ! b)" for a b
  proof -
    have h1: "?K1 ! a ! b = (if a = j \<and> b = i then v else mat_set K i j v ! a ! b)"
      using Cons.prems(2,3) j by (intro nth_mat_set [of n]) (simp_all add: square_mat_set)
    have h2: "mat_set K i j v ! a ! b = (if a = i \<and> b = j then v else K ! a ! b)"
      using Cons.prems(2,3) j by (intro nth_mat_set [of n]) simp_all
    show ?thesis by (simp only: h1 h2)
  qed
  have js: "\<forall>j\<in>set js. i < j \<and> j < n" using Cons.prems(4) by simp
  note IH = Cons.IH [OF rest sq1 Cons.prems(3) js]
  show ?case
  proof (intro conjI allI impI)
    show "square n M" by (rule IH [THEN conjunct1])
  next
    fix a b assume ab: "a < n" "b < n"
    note e = IH [THEN conjunct2, rule_format, OF ab]
    show "if a = i \<and> b \<in> set (j # js) then evaluates k x i b (M ! a ! b)
       else if b = i \<and> a \<in> set (j # js) then evaluates k x i a (M ! a ! b)
       else M ! a ! b = K ! a ! b"
      using e v j by (auto simp: K1 split: if_splits)
  qed
qed


lemma cov_entry_unique: "cov_entry k x yerr a b w \<Longrightarrow> cov_entry k x yerr a b w' \<Longrightarrow> w = w'"
  by (auto simp: cov_entry_def evaluates_def split: if_splits)

lemma compute_rows_result:
  assumes "compute_rows k x yerr n [i0..<n] K = Inr M" and "square n K"
  shows "square n M \<and>
    (\<forall>a<n. \<forall>b<n.
       if i0 \<le> a \<and> i0 \<le> b then cov_entry k x yerr a b (M ! a ! b)
       else M ! a ! b = K ! a ! b)"
  using assms
proof (induction "n - i0" arbitrary: i0 K)
  case 0
  then have "[i0..<n] = []" by simp
  with "0.prems" show ?case by auto
next
  case (Suc d)
  then have i0: "i0 < n" and upt: "[i0..<n] = i0 # [Suc i0..<n]" and d: "d = n - Suc i0"
    by (simp_all add: upt_conv_Cons)
  from Suc.prems(1) upt obtain K1 kii e where
    cols: "compute_cols k x i0 [Suc i0..<n] K = Inr K1"
    and kii: "evaluates k x i0 i0 kii" and e: "coeff yerr i0 = Inr e"
    and rest: "compute_rows k x yerr n [Suc i0..<n] (mat_set K1 i0 i0 (dadd kii (dmul e e))) = Inr M"
    by (auto simp: evaluates_def split: sum.splits)
  let ?K2 = "mat_set K1 i0 i0 (dadd kii (dmul e e))"
  have js: "\<forall>j\<in>set [Suc i0..<n]. i0 < j \<and> j < n" by simp
  note C = compute_cols_result [OF cols Suc.prems(2) i0 js]
  have sq1: "square n K1" by (rule C [THEN conjunct1])
  have sq2: "square n ?K2" using sq1 by (rule square_mat_set)
  have K2: "?K2 ! a ! b = (if a = i0 \<and> b = i0 then dadd kii (dmul e e) else K1 ! a ! b)" for a b
    using sq1 i0 by (intro nth_mat_set [of n]) simp_all
  note IH = Suc.hyps(1) [OF d rest sq2]
  show ?case
  proof (intro conjI allI impI)
    show "square n M" by (rule IH [THEN conjunct1])
  next
    fix a b assume ab: "a < n" "b < n"
    note m = IH [THEN conjunct2, rule_format, OF ab]
    note c = C [THEN conjunct2, rule_format, OF ab]
    show "if i0 \<le> a \<and> i0 \<le> b then cov_entry k x yerr a b (M ! a ! b)
          else M ! a ! b = K ! a ! b"
    proof (cases "Suc i0 \<le> a \<and> Suc i0 \<le> b")
      case True
      then show ?thesis using m by auto
    next
      case False
      then have M: "M ! a ! b = ?K2 ! a ! b" using m by auto
      show ?thesis
      proof (cases "i0 \<le> a \<and> i0 \<le> b")
        case False
        then show ?thesis using M c ab by (auto simp: K2 split: if_splits)
      next
        case True
        with \<open>\<not> (Suc i0 \<le> a \<and> Suc i0 \<le> b)\<close> consider
          "a = i0" "b = i0" | "a = i0" "i0 < b" | "b = i0" "i0 < a"
          by force
        then show ?thesis
        proof cases
          case 1
          then show ?thesis using M kii e by (auto simp: K2 cov_entry_def)
        next
          case 2
          then show ?thesis using M c ab by (auto simp: K2 cov_entry_def min_def max_def)
        next
          case 3
          then show ?thesis using M c ab by (auto simp: K2 cov_entry_def min_def max_def)
        qed
      qed
    qed
  qed
qed

lemma covariance_result:
  assumes "covariance u k x yerr = Inr K"
  shows "square (length x) K \<and>
    (\<forall>a<length x. \<forall>b<length x. cov_entry k x yerr a b (K ! a ! b))"
  using compute_rows_result [of k x yerr "length x" 0 "MatrixXd (length x) (length x) u" K] assms
  by (simp add: covariance_def square_MatrixXd Let_def)


lemma sqdist_commute: "sqdist a b = sqdist b a"
proof -
  have "map2 (\<lambda>a b. dmul (dsub a b) (dsub a b)) a b = map2 (\<lambda>a b. dmul (dsub a b) (dsub a b)) b a"
    by (induction a arbitrary: b) (auto simp: zip_Cons1 dsq_sub split: list.splits)
  then show ?thesis by (simp add: sqdist_def)
qed

lemma evaluate_commute: "evaluate k a b = evaluate k b a"
proof (cases k)
  case (Kernel p)
  then show ?thesis by simp
next
  case (IsotropicGaussianKernel p)
  show ?thesis
  proof (cases "length a = length b")
    case True
    then show ?thesis
      using sqdist_commute [of a b]
      by (simp add: IsotropicGaussianKernel vsub_def dot_self)
  next
    case False
    then show ?thesis by (auto simp: IsotropicGaussianKernel vsub_def)
  qed
qed

lemma evaluate_ok:
  assumes "kernel_ok k" and "length a = length b"
  shows "\<exists>v. evaluate k a b = Inr v"
  using assms by (cases k) (auto simp: kernel_ok_def vsub_def dot_self coeff_def Let_def)

lemma compute_cols_ok:
  assumes "\<forall>j\<in>set js. \<exists>v. evaluate k (x ! i) (x ! j) = Inr v"
  shows "\<exists>M. compute_cols k x i js K = Inr M"
  using assms by (induction js arbitrary: K) auto

lemma compute_rows_ok:
  assumes "\<forall>i<n. \<forall>j<n. \<exists>v. evaluate k (x ! i) (x ! j) = Inr v" and "n \<le> length yerr"
    and "\<forall>i\<in>set is. i < n"
  shows "\<exists>M. compute_rows k x yerr n is K = Inr M"
  using assms(3)
proof (induction "is" arbitrary: K)
  case Nil
  then show ?case by simp
next
  case (Cons i "is")
  then have i: "i < n" by simp
  have "\<forall>j\<in>set [Suc i..<n]. \<exists>v. evaluate k (x ! i) (x ! j) = Inr v"
    using assms(1) i by simp
  then obtain K1 where K1: "compute_cols k x i [Suc i..<n] K = Inr K1"
    using compute_cols_ok by blast
  obtain v where v: "evaluate k (x ! i) (x ! i) = Inr v" using assms(1) i by blast
  have e: "coeff yerr i = Inr (yerr ! i)" using i assms(2) by (simp add: coeff_def)
  from Cons have "\<exists>M. compute_rows k x yerr n is (mat_set K1 i i (dadd v (dmul (yerr ! i) (yerr ! i)))) = Inr M"
    by simp
  then show ?case by (simp add: K1 v e)
qed

lemma compute_cols_fault:
  "(compute_cols k x i js K = Inl f) = (compute_cols k x i js K' = Inl f)"
  by (induction js arbitrary: K K') (auto split: sum.splits)

lemma compute_rows_fault:
  "(compute_rows k x yerr n is K = Inl f) = (compute_rows k x yerr n is K' = Inl f)"
proof (induction "is" arbitrary: K K')
  case Nil
  then show ?case by simp
next
  case (Cons i "is")
  show ?case
  proof (cases "compute_cols k x i [Suc i..<n] K")
    case (Inl g)
    then have "compute_cols k x i [Suc i..<n] K' = Inl g"
      using compute_cols_fault by blast
    with Inl show ?thesis by simp
  next
    case (Inr K1)
    then obtain K1' where K1': "compute_cols k x i [Suc i..<n] K' = Inr K1'"
      using compute_cols_fault [of k x i "[Suc i..<n]" K' _ K]
      by (cases "compute_cols k x i [Suc i..<n] K'") auto
    show ?thesis
      using Cons.IH by (auto simp: Inr K1' split: sum.splits)
  qed
qed

lemma covariance_storage: "covariance u k x yerr = covariance u' k x yerr"
proof (cases "covariance u k x yerr")
  case (Inl f)
  then show ?thesis
    using compute_rows_fault [of k x yerr "length x" "[0..<length x]"
        "MatrixXd (length x) (length x) u" f "MatrixXd (length x) (length x) u'"]
    by (simp add: covariance_def Let_def)
next
  case (Inr K)
  then obtain K' where K': "covariance u' k x yerr = Inr K'"
    using compute_rows_fault [of k x yerr "length x" "[0..<length x]"
        "MatrixXd (length x) (length x) u'" _ "MatrixXd (length x) (length x) u"]
    by (cases "covariance u' k x yerr") (auto simp: covariance_def Let_def)
  have "K = K'"
  proof (rule square_eqI)
    show "square (length x) K" using covariance_result [OF Inr] by simp
    show "square (length x) K'" using covariance_result [OF K'] by simp
  next
    fix a b assume "a < length x" "b < length x"
    then show "K ! a ! b = K' ! a ! b"
      using covariance_result [OF Inr] covariance_result [OF K'] cov_entry_unique by blast
  qed
  then show ?thesis using Inr K' by simp
qed

text \<open>
  C6. For a rectangular input matrix \<open>x\<close>, a noise vector as long as \<open>x\<close> has rows and
  a kernel with enough parameters, \<open>compute\<close> builds (without a fault, and whatever the
  fresh storage held) a square matrix \<open>K\<close> and hands it to the factorization. \<open>K\<close> is
  symmetric, its entries off the diagonal are the kernel at the two rows, and a
  diagonal entry is the kernel at the row itself plus the square of the row's noise.
\<close>

theorem covariance_matrix:
  assumes "\<forall>r\<in>set x. length r = d" and "length yerr = length x" and "kernel_ok k"
  shows "\<exists>K. covariance u k x yerr = Inr K \<and> square (length x) K
    \<and> (\<forall>i<length x. \<forall>j<length x.
          K ! i ! j = K ! j ! i
        \<and> (i \<noteq> j \<longrightarrow> evaluate k (x ! i) (x ! j) = Inr (K ! i ! j))
        \<and> (\<exists>v. evaluate k (x ! i) (x ! i) = Inr v
               \<and> K ! i ! i = dadd v (dmul (yerr ! i) (yerr ! i))))
    \<and> (\<forall>B gp. gp_kernel gp = k \<longrightarrow>
          (\<exists>status gp'. compute B u gp x yerr = Inr (status, gp')
             \<and> gp_x gp' = x \<and> gp_L gp' = ldlt_compute B K))"
proof -
  have ev: "\<forall>i<length x. \<forall>j<length x. \<exists>v. evaluate k (x ! i) (x ! j) = Inr v"
    using assms(1,3) by (auto intro!: evaluate_ok)
  obtain K where K: "covariance u k x yerr = Inr K"
    using compute_rows_ok [OF ev, of yerr "[0..<length x]"] assms(2)
    by (auto simp: covariance_def Let_def)
  note R = covariance_result [OF K]
  have ent: "K ! i ! j = K ! j ! i
        \<and> (i \<noteq> j \<longrightarrow> evaluate k (x ! i) (x ! j) = Inr (K ! i ! j))
        \<and> (\<exists>v. evaluate k (x ! i) (x ! i) = Inr v
               \<and> K ! i ! i = dadd v (dmul (yerr ! i) (yerr ! i)))"
    if ij: "i < length x" "j < length x" for i j
  proof -
    have a: "cov_entry k x yerr i j (K ! i ! j)" and b: "cov_entry k x yerr j i (K ! j ! i)"
      and c: "cov_entry k x yerr i i (K ! i ! i)"
      using R ij by simp_all
    have sym: "K ! i ! j = K ! j ! i"
    proof (cases "i = j")
      case True
      then show ?thesis by simp
    next
      case False
      then show ?thesis
        using a b by (cases "i \<le> j") (auto simp: cov_entry_def evaluates_def min_def max_def)
    qed
    have off: "evaluate k (x ! i) (x ! j) = Inr (K ! i ! j)" if "i \<noteq> j"
    proof (cases "i < j")
      case True
      then show ?thesis using a that by (simp add: cov_entry_def evaluates_def)
    next
      case False
      then have "evaluate k (x ! j) (x ! i) = Inr (K ! i ! j)"
        using a that by (simp add: cov_entry_def evaluates_def min_def max_def)
      then show ?thesis by (simp add: evaluate_commute [of k "x ! i"])
    qed
    have "coeff yerr i = Inr (yerr ! i)" using ij assms(2) by (simp add: coeff_def)
    then have dia: "\<exists>v. evaluate k (x ! i) (x ! i) = Inr v
               \<and> K ! i ! i = dadd v (dmul (yerr ! i) (yerr ! i))"
      using c by (auto simp: cov_entry_def evaluates_def)
    show ?thesis using sym off dia by blast
  qed
  have comp: "\<exists>status gp'. compute B u gp x yerr = Inr (status, gp')
             \<and> gp_x gp' = x \<and> gp_L gp' = ldlt_compute B K" if "gp_kernel gp = k" for B gp
    using that K by (simp add: compute_def Let_def)
  show ?thesis using K R ent comp by blast
qed

theorem covariance_matrix_witness:
  "length [Fin 1, Fin 2] = length [[Fin 0], [Fin 0]]
   \<and> kernel_ok (IsotropicGaussianKernel [Fin 1, Fin 1])
   \<and> covariance (\<lambda>i j. NaN) (IsotropicGaussianKernel [Fin 1, Fin 1])
        [[Fin 0], [Fin 0]] [Fin 1, Fin 2]
     = Inr [[Fin 2, Fin 1], [Fin 1, Fin 5]]"
  using covariance_matrix [of "[[Fin 0], [Fin 0]]" 1 "[Fin 1, Fin 2]"
      "IsotropicGaussianKernel [Fin 1, Fin 1]" "\<lambda>i j. NaN"]
  by (simp add: run_defs)

section \<open>Determinism of compute\<close>

text \<open>
  C9. Two runs of \<open>compute\<close> with the same kernel, inputs and noise, on instances in any
  state and with any content of the fresh storage, fail alike or return the same
  status, and then \<open>lnlikelihood\<close> returns the same on both instances for every
  target. A further run on the instance the first run left returns the same status and
  leaves the instance as it is.
\<close>

theorem compute_deterministic:
  assumes "gp_kernel gp1 = gp_kernel gp2"
  shows "map_sum id fst (compute B u1 gp1 x yerr) = map_sum id fst (compute B u2 gp2 x yerr)
    \<and> (\<forall>s1 g1 s2 g2.
         compute B u1 gp1 x yerr = Inr (s1, g1) \<and> compute B u2 gp2 x yerr = Inr (s2, g2) \<longrightarrow>
           s1 = s2
         \<and> map_sum id fst (lnlikelihood B g1 y) = map_sum id fst (lnlikelihood B g2 y)
         \<and> compute B u2 g1 x yerr = Inr (s1, g1))"
proof -
  have c: "covariance u1 (gp_kernel gp1) x yerr = covariance u2 (gp_kernel gp2) x yerr"
    using assms covariance_storage by simp
  show ?thesis
  proof (cases "covariance u2 (gp_kernel gp2) x yerr")
    case (Inl f)
    then show ?thesis using c by (simp add: compute_def Let_def)
  next
    case (Inr K)
    then show ?thesis
      using c assms
      by (cases "ldlt_success B (ldlt_compute B K)")
         (auto simp: compute_def lnlikelihood_def Let_def split: sum.splits)
  qed
qed

theorem compute_deterministic_witness:
  "compute diag_ldlt (\<lambda>i j. NaN)
     (GaussianProcess diag_ldlt (IsotropicGaussianKernel [Fin 1, Fin 1])) [[Fin 0]] [Fin 0]
   = Inr (0, \<lparr>gp_kernel = IsotropicGaussianKernel [Fin 1, Fin 1], gp_info = 0,
              gp_computed = True, gp_x = [[Fin 0]], gp_L = [[Fin 1]]\<rparr>)
   \<and> compute diag_ldlt (\<lambda>i j. PInf)
       \<lparr>gp_kernel = IsotropicGaussianKernel [Fin 1, Fin 1], gp_info = - 1,
        gp_computed = True, gp_x = [[Fin 7], [Fin 8]], gp_L = [[Fin 0, Fin 1], [Fin 1, Fin 0]]\<rparr>
       [[Fin 0]] [Fin 0]
     = Inr (0, \<lparr>gp_kernel = IsotropicGaussianKernel [Fin 1, Fin 1], gp_info = - 1,
              gp_computed = True, gp_x = [[Fin 0]], gp_L = [[Fin 1]]\<rparr>)
   \<and> map_sum id fst (lnlikelihood diag_ldlt
        \<lparr>gp_kernel = IsotropicGaussianKernel [Fin 1, Fin 1], gp_info = 0,
         gp_computed = True, gp_x = [[Fin 0]], gp_L = [[Fin 1]]\<rparr> [Fin 2])
     = map_sum id fst (lnlikelihood diag_ldlt
        \<lparr>gp_kernel = IsotropicGaussianKernel [Fin 1, Fin 1], gp_info = - 1,
         gp_computed = True, gp_x = [[Fin 0]], gp_L = [[Fin 1]]\<rparr> [Fin 2])"
  using compute_deterministic [of
      "GaussianProcess diag_ldlt (IsotropicGaussianKernel [Fin 1, Fin 1])"
      "\<lparr>gp_kernel = IsotropicGaussianKernel [Fin 1, Fin 1], gp_info = - 1,
        gp_computed = True, gp_x = [[Fin 7], [Fin 8]], gp_L = [[Fin 0, Fin 1], [Fin 1, Fin 0]]\<rparr>"
      diag_ldlt "\<lambda>i j. NaN" "[[Fin 0]]" "[Fin 0]" "\<lambda>i j. PInf" "[Fin 2]"]
  by (simp add: run_defs)

section \<open>The gradient of the log likelihood\<close>

lemma gradient_length: "gradient u k a b = Inr g \<Longrightarrow> length g = npars k"
  by (cases k) (auto simp: npars_def VectorXd_def Let_def split: sum.splits)

lemma gradient_ok:
  assumes "kernel_ok k" and "length a = length b"
  shows "\<exists>g. gradient u k a b = Inr g"
  using assms by (cases k) (auto simp: kernel_ok_def vsub_def dot_self coeff_def Let_def)

lemma gradient_commute: "gradient u k a b = gradient u k b a"
proof (cases k)
  case (Kernel p)
  then show ?thesis by simp
next
  case (IsotropicGaussianKernel p)
  show ?thesis
  proof (cases "length a = length b")
    case True
    then show ?thesis
      using sqdist_commute [of a b]
      by (simp add: IsotropicGaussianKernel vsub_def dot_self)
  next
    case False
    then show ?thesis by (auto simp: IsotropicGaussianKernel vsub_def)
  qed
qed

lemma grad_fill_result:
  assumes "grad_fill g i j ks dkdt = Inr D" and "\<forall>k\<in>set ks. k < length dkdt"
    and "\<forall>k<length dkdt. square n (dkdt ! k)" and "i \<le> j" and "j < n"
  shows "length D = length dkdt \<and>
    (\<forall>k<length dkdt. square n (D ! k) \<and>
       (\<forall>a<n. \<forall>b<n. D ! k ! a ! b =
          (if k \<in> set ks \<and> ((a = i \<and> b = j) \<or> (a = j \<and> b = i)) then g ! k
           else dkdt ! k ! a ! b)))"
  using assms
proof (induction ks arbitrary: dkdt)
  case Nil
  then show ?case by simp
next
  case (Cons k ks)
  let ?v = "g ! k"
  let ?ma = "mat_set (dkdt ! k) i j ?v"
  let ?mb = "if j > i then mat_set ?ma j i ?v else ?ma"
  let ?da = "dkdt[k := ?mb]"
  from Cons.prems(1) have kg: "k < length g" and rest: "grad_fill g i j ks ?da = Inr D"
    by (auto simp: coeff_def Let_def split: if_splits)
  have k: "k < length dkdt" using Cons.prems(2) by simp
  have i: "i < n" using Cons.prems(4,5) by simp
  have sqk: "square n (dkdt ! k)" using Cons.prems(3) k by simp
  have sqm: "square n ?mb" using sqk by (simp add: square_mat_set)
  have m: "?mb ! a ! b = (if (a = i \<and> b = j) \<or> (a = j \<and> b = i) then ?v else dkdt ! k ! a ! b)"
    for a b
  proof -
    have h0: "?ma ! a ! b = (if a = i \<and> b = j then ?v else dkdt ! k ! a ! b)"
      using sqk i Cons.prems(5) by (intro nth_mat_set [of n]) simp_all
    have h1: "mat_set ?ma j i ?v ! a ! b = (if a = j \<and> b = i then ?v else ?ma ! a ! b)"
      using sqk i Cons.prems(5) by (intro nth_mat_set [of n]) (simp_all add: square_mat_set)
    show ?thesis
    proof (cases "j > i")
      case True
      then show ?thesis by (simp only: h1 h0 if_True) auto
    next
      case False
      then have "j = i" using Cons.prems(4) by simp
      then show ?thesis using h0 by auto
    qed
  qed
  have len1: "length ?da = length dkdt" by simp
  have ks1: "\<forall>k\<in>set ks. k < length ?da" using Cons.prems(2) by simp
  have sq1: "\<forall>k'<length ?da. square n (?da ! k')"
  proof (intro allI impI)
    fix k' assume "k' < length ?da"
    then show "square n (?da ! k')"
      using Cons.prems(3) sqm by (cases "k' = k") simp_all
  qed
  note IH = Cons.IH [OF rest ks1 sq1 Cons.prems(4,5)]
  show ?case
  proof (intro conjI allI impI)
    show "length D = length dkdt" using IH by simp
  next
    fix k' assume k': "k' < length dkdt"
    then show "square n (D ! k')" using IH by simp
  next
    fix k' a b assume k': "k' < length dkdt" and ab: "a < n" "b < n"
    have e: "D ! k' ! a ! b =
          (if k' \<in> set ks \<and> ((a = i \<and> b = j) \<or> (a = j \<and> b = i)) then g ! k'
           else ?da ! k' ! a ! b)"
      using IH k' ab by simp
    have da: "?da ! k' ! a ! b =
          (if k' = k then (if (a = i \<and> b = j) \<or> (a = j \<and> b = i) then g ! k else dkdt ! k ! a ! b)
           else dkdt ! k' ! a ! b)"
    proof (cases "k' = k")
      case True
      have "?da ! k = ?mb" using k by (rule nth_list_update_eq)
      then have "?da ! k ! a ! b = ?mb ! a ! b" by (simp only:)
      also note m [of a b]
      finally show ?thesis by (simp only: True simp_thms if_True)
    next
      case False
      then have "?da ! k' = dkdt ! k'" by simp
      then have "?da ! k' ! a ! b = dkdt ! k' ! a ! b" by (simp only:)
      then show ?thesis by (simp only: False if_False)
    qed
    show "D ! k' ! a ! b =
          (if k' \<in> set (k # ks) \<and> ((a = i \<and> b = j) \<or> (a = j \<and> b = i)) then g ! k'
           else dkdt ! k' ! a ! b)"
      unfolding e da by auto
  qed
qed

lemma grad_fill_ok:
  assumes "\<forall>k\<in>set ks. k < length g"
  shows "\<exists>D. grad_fill g i j ks dkdt = Inr D"
  using assms by (induction ks arbitrary: dkdt) (auto simp: coeff_def Let_def)


lemma grad_cols_result:
  assumes "grad_cols u kern x i js (ga, dkdt) = Inr (gb, D)"
    and "length dkdt = npars kern" and "\<forall>k<npars kern. square n (dkdt ! k)"
    and "\<forall>j\<in>set js. i \<le> j \<and> j < n" and "length ga = npars kern"
  shows "length gb = npars kern \<and> length D = npars kern \<and>
    (\<forall>k<npars kern. square n (D ! k) \<and>
       (\<forall>a<n. \<forall>b<n.
          if a = i \<and> b \<in> set js then grad_at u kern x k i b (D ! k ! a ! b)
          else if b = i \<and> a \<in> set js then grad_at u kern x k i a (D ! k ! a ! b)
          else D ! k ! a ! b = dkdt ! k ! a ! b))"
  using assms
proof (induction js arbitrary: ga dkdt)
  case Nil
  then show ?case by simp
next
  case (Cons j js)
  from Cons.prems(1) obtain g Da where g: "gradient u kern (x ! i) (x ! j) = Inr g"
    and fill: "grad_fill g i j [0..<npars kern] dkdt = Inr Da"
    and rest: "grad_cols u kern x i js (g, Da) = Inr (gb, D)"
    by (auto split: sum.splits)
  have lg: "length g = npars kern" using g by (rule gradient_length)
  have j: "i \<le> j" "j < n" using Cons.prems(4) by simp_all
  have ks: "\<forall>k\<in>set [0..<npars kern]. k < length dkdt" using Cons.prems(2) by simp
  have sq: "\<forall>k<length dkdt. square n (dkdt ! k)" using Cons.prems(2,3) by simp
  note F = grad_fill_result [OF fill ks sq j]
  have lDa: "length Da = npars kern" using F Cons.prems(2) by simp
  have sqDa: "\<forall>k<npars kern. square n (Da ! k)" using F Cons.prems(2) by simp
  have Da: "Da ! k ! a ! b =
      (if (a = i \<and> b = j) \<or> (a = j \<and> b = i) then g ! k else dkdt ! k ! a ! b)"
    if "k < npars kern" "a < n" "b < n" for k a b
    using F that Cons.prems(2) by simp
  have js: "\<forall>j\<in>set js. i \<le> j \<and> j < n" using Cons.prems(4) by simp
  note IH = Cons.IH [OF rest lDa sqDa js lg]
  have gj: "grad_at u kern x k i j (g ! k)" for k
    using g by (simp add: grad_at_def)
  show ?case
  proof (intro conjI allI impI)
    show "length gb = npars kern" using IH by simp
    show "length D = npars kern" using IH by simp
  next
    fix k assume "k < npars kern"
    then show "square n (D ! k)" using IH by simp
  next
    fix k a b assume k: "k < npars kern" and ab: "a < n" "b < n"
    have e: "if a = i \<and> b \<in> set js then grad_at u kern x k i b (D ! k ! a ! b)
          else if b = i \<and> a \<in> set js then grad_at u kern x k i a (D ! k ! a ! b)
          else D ! k ! a ! b = Da ! k ! a ! b"
      using IH k ab by simp
    show "if a = i \<and> b \<in> set (j # js) then grad_at u kern x k i b (D ! k ! a ! b)
          else if b = i \<and> a \<in> set (j # js) then grad_at u kern x k i a (D ! k ! a ! b)
          else D ! k ! a ! b = dkdt ! k ! a ! b"
      using e gj [of k] by (auto simp: Da [OF k ab] split: if_splits)
  qed
qed

lemma grad_cols_ok:
  assumes "\<forall>j\<in>set js. \<exists>g. gradient u kern (x ! i) (x ! j) = Inr g"
  shows "\<exists>r. grad_cols u kern x i js (ga, dkdt) = Inr r"
  using assms
proof (induction js arbitrary: ga dkdt)
  case Nil
  then show ?case by simp
next
  case (Cons j js)
  then obtain g where g: "gradient u kern (x ! i) (x ! j) = Inr g" by auto
  then have "\<forall>k\<in>set [0..<npars kern]. k < length g" by (simp add: gradient_length)
  then obtain Da where Da: "grad_fill g i j [0..<npars kern] dkdt = Inr Da"
    using grad_fill_ok by blast
  from Cons have "\<exists>r. grad_cols u kern x i js (g, Da) = Inr r" by simp
  then show ?case by (simp add: g Da)
qed

lemma grad_rows_result:
  assumes "grad_rows u kern x n [i0..<n] (ga, dkdt) = Inr (gb, D)"
    and "length dkdt = npars kern" and "\<forall>k<npars kern. square n (dkdt ! k)"
    and "length ga = npars kern"
  shows "length gb = npars kern \<and> length D = npars kern \<and>
    (\<forall>k<npars kern. square n (D ! k) \<and>
       (\<forall>a<n. \<forall>b<n.
          if i0 \<le> a \<and> i0 \<le> b then grad_at u kern x k (min a b) (max a b) (D ! k ! a ! b)
          else D ! k ! a ! b = dkdt ! k ! a ! b))"
  using assms
proof (induction "n - i0" arbitrary: i0 ga dkdt)
  case 0
  then have "[i0..<n] = []" by simp
  with "0.prems" show ?case by auto
next
  case (Suc d)
  then have i0: "i0 < n" and upt: "[i0..<n] = i0 # [Suc i0..<n]" and d: "d = n - Suc i0"
    by (simp_all add: upt_conv_Cons)
  from Suc.prems(1) upt obtain gc Da where
    cols: "grad_cols u kern x i0 [i0..<n] (ga, dkdt) = Inr (gc, Da)"
    and rest: "grad_rows u kern x n [Suc i0..<n] (gc, Da) = Inr (gb, D)"
    by (cases "grad_cols u kern x i0 [i0..<n] (ga, dkdt)") auto
  have js: "\<forall>j\<in>set [i0..<n]. i0 \<le> j \<and> j < n" by simp
  note C = grad_cols_result [OF cols Suc.prems(2,3) js Suc.prems(4)]
  have lgc: "length gc = npars kern" and lDa: "length Da = npars kern"
    and sqDa: "\<forall>k<npars kern. square n (Da ! k)"
    using C by simp_all
  note IH = Suc.hyps(1) [OF d rest lDa sqDa lgc]
  show ?case
  proof (intro conjI allI impI)
    show "length gb = npars kern" using IH by simp
    show "length D = npars kern" using IH by simp
  next
    fix k assume "k < npars kern"
    then show "square n (D ! k)" using IH by simp
  next
    fix k a b assume k: "k < npars kern" and ab: "a < n" "b < n"
    have m: "if Suc i0 \<le> a \<and> Suc i0 \<le> b
          then grad_at u kern x k (min a b) (max a b) (D ! k ! a ! b)
          else D ! k ! a ! b = Da ! k ! a ! b"
      using IH k ab by simp
    have c: "if a = i0 \<and> b \<in> set [i0..<n] then grad_at u kern x k i0 b (Da ! k ! a ! b)
          else if b = i0 \<and> a \<in> set [i0..<n] then grad_at u kern x k i0 a (Da ! k ! a ! b)
          else Da ! k ! a ! b = dkdt ! k ! a ! b"
      using C k ab by simp
    show "if i0 \<le> a \<and> i0 \<le> b then grad_at u kern x k (min a b) (max a b) (D ! k ! a ! b)
          else D ! k ! a ! b = dkdt ! k ! a ! b"
    proof (cases "Suc i0 \<le> a \<and> Suc i0 \<le> b")
      case True
      then show ?thesis using m by auto
    next
      case False
      then have M: "D ! k ! a ! b = Da ! k ! a ! b" using m by auto
      show ?thesis
      proof (cases "i0 \<le> a \<and> i0 \<le> b")
        case False
        then show ?thesis using M c ab by (auto split: if_splits)
      next
        case True
        with \<open>\<not> (Suc i0 \<le> a \<and> Suc i0 \<le> b)\<close> consider
          "a = i0" "i0 \<le> b" | "b = i0" "i0 < a"
          by force
        then show ?thesis
        proof cases
          case 1
          then show ?thesis using M c ab by (auto simp: min_def max_def)
        next
          case 2
          then show ?thesis using M c ab by (auto simp: min_def max_def)
        qed
      qed
    qed
  qed
qed

lemma grad_rows_ok:
  assumes "\<forall>i<n. \<forall>j<n. \<exists>g. gradient u kern (x ! i) (x ! j) = Inr g"
    and "\<forall>i\<in>set is. i < n"
  shows "\<exists>r. grad_rows u kern x n is (ga, dkdt) = Inr r"
  using assms(2)
proof (induction "is" arbitrary: ga dkdt)
  case Nil
  then show ?case by simp
next
  case (Cons i "is")
  then have i: "i < n" by simp
  have "\<forall>j\<in>set [i..<n]. \<exists>g. gradient u kern (x ! i) (x ! j) = Inr g"
    using assms(1) i by simp
  then obtain r where r: "grad_cols u kern x i [i..<n] (ga, dkdt) = Inr r"
    using grad_cols_ok by blast
  obtain gc Da where rp: "r = (gc, Da)" by (cases r)
  from Cons have "\<exists>r. grad_rows u kern x n is (gc, Da) = Inr r" by simp
  then show ?case by (simp add: r rp)
qed


lemma dsub_dsub: "dsub (dsub g a) b = dsub g (dadd a b)"
  by (cases g; cases a; cases b) (simp_all add: dsub_def)

lemma dsub_zero: "dsub g (Fin 0) = g"
  by (cases g) (simp_all add: dsub_def)

lemma map2_dmul_commute: "map2 dmul a b = map2 dmul b a"
  by (induction a arbitrary: b) (auto simp: zip_Cons1 dmul_commute split: list.splits)

lemma dsum_Cons: "dsum (v # vs) = dadd v (dsum vs)"
  by (simp add: dsum_def)

lemma quad_loop_result:
  assumes "quad_loop alpha m is g = Inr r"
  shows "r = dsub g (dsum (map (\<lambda>i. dmul (alpha ! i) (dsum (map2 dmul (m ! i) alpha))) is))"
  using assms
proof (induction "is" arbitrary: g)
  case Nil
  then show ?case by (simp add: dsum_def dsub_zero)
next
  case (Cons i "is")
  from Cons.prems obtain d where i: "i < length alpha" and d: "dot alpha (m ! i) = Inr d"
    and rest: "quad_loop alpha m is (dsub g (dmul (alpha ! i) d)) = Inr r"
    by (auto simp: coeff_def split: sum.splits if_splits)
  have "d = dsum (map2 dmul (m ! i) alpha)"
    using d map2_dmul_commute [of alpha "m ! i"] by (auto simp: dot_def split: if_splits)
  then show ?case using Cons.IH [OF rest] by (simp add: dsum_Cons dsub_dsub)
qed

lemma quad_loop_ok:
  assumes "\<forall>i\<in>set is. i < length alpha \<and> length (m ! i) = length alpha"
  shows "\<exists>r. quad_loop alpha m is g = Inr r"
  using assms by (induction "is" arbitrary: g) (auto simp: coeff_def dot_def)

lemma map_upt_map2:
  assumes "length xs = n" and "length ys = n"
  shows "map (\<lambda>i. f (xs ! i) (ys ! i)) [0..<n] = map2 f xs ys"
  using assms by (intro nth_equalityI) simp_all

lemma quadform_upt:
  assumes "length alpha = n" and "length m = n"
  shows "dsum (map (\<lambda>i. dmul (alpha ! i) (dsum (map2 dmul (m ! i) alpha))) [0..<n])
       = quadform alpha m"
proof -
  have "map (\<lambda>i. dmul (alpha ! i) (dsum (map2 dmul (m ! i) alpha))) [0..<n]
      = map2 (\<lambda>a row. dmul a (dsum (map2 dmul row alpha))) alpha m"
    using assms by (rule map_upt_map2)
  also have "\<dots> = map2 dmul alpha (mat_vec m alpha)"
    by (auto simp: mat_vec_def zip_map2)
  finally show ?thesis by (simp add: quadform_def)
qed

lemma grad_final_result:
  assumes "grad_final B L alpha n ks dkdt grad = Inr r" and "distinct ks"
  shows "length r = length grad \<and>
    (\<forall>k<length grad. r ! k =
       (if k \<in> set ks
        then dmul (Fin (- (1 / 2)))
               (dsub (mtrace (ldlt_solve_matrix B L (dkdt ! k)))
                  (dsum (map (\<lambda>i. dmul (alpha ! i) (dsum (map2 dmul (dkdt ! k ! i) alpha))) [0..<n])))
        else grad ! k))"
  using assms
proof (induction ks arbitrary: grad)
  case Nil
  then show ?case by simp
next
  case (Cons k ks)
  let ?q = "dsum (map (\<lambda>i. dmul (alpha ! i) (dsum (map2 dmul (dkdt ! k ! i) alpha))) [0..<n])"
  let ?t = "mtrace (ldlt_solve_matrix B L (dkdt ! k))"
  from Cons.prems(1) obtain g where k: "k < length grad"
    and q: "quad_loop alpha (dkdt ! k) [0..<n] ?t = Inr g"
    and rest: "grad_final B L alpha n ks dkdt (grad[k := dmul g (Fin (- (1 / 2)))]) = Inr r"
    by (auto split: sum.splits if_splits)
  have g: "g = dsub ?t ?q" using quad_loop_result [OF q] .
  have dk: "distinct ks" and nk: "k \<notin> set ks" using Cons.prems(2) by simp_all
  note IH = Cons.IH [OF rest dk]
  show ?case
  proof (intro conjI allI impI)
    show "length r = length grad" using IH by simp
  next
    fix k' assume k': "k' < length grad"
    then have e: "r ! k' =
       (if k' \<in> set ks
        then dmul (Fin (- (1 / 2)))
               (dsub (mtrace (ldlt_solve_matrix B L (dkdt ! k')))
                  (dsum (map (\<lambda>i. dmul (alpha ! i) (dsum (map2 dmul (dkdt ! k' ! i) alpha))) [0..<n])))
        else grad[k := dmul g (Fin (- (1 / 2)))] ! k')"
      using IH by simp
    show "r ! k' =
       (if k' \<in> set (k # ks)
        then dmul (Fin (- (1 / 2)))
               (dsub (mtrace (ldlt_solve_matrix B L (dkdt ! k')))
                  (dsum (map (\<lambda>i. dmul (alpha ! i) (dsum (map2 dmul (dkdt ! k' ! i) alpha))) [0..<n])))
        else grad ! k')"
    proof (cases "k' = k")
      case True
      then show ?thesis using e nk k g by (simp add: dmul_commute)
    next
      case False
      then show ?thesis using e by simp
    qed
  qed
qed

lemma grad_final_ok:
  assumes "\<forall>k\<in>set ks. k < length grad
      \<and> (\<forall>i<n. i < length alpha \<and> length (dkdt ! k ! i) = length alpha)"
  shows "\<exists>r. grad_final B L alpha n ks dkdt grad = Inr r"
  using assms
proof (induction ks arbitrary: grad)
  case Nil
  then show ?case by simp
next
  case (Cons k ks)
  then have "\<forall>i\<in>set [0..<n]. i < length alpha \<and> length (dkdt ! k ! i) = length alpha"
    by simp
  then obtain g where g: "quad_loop alpha (dkdt ! k) [0..<n]
      (mtrace (ldlt_solve_matrix B L (dkdt ! k))) = Inr g"
    using quad_loop_ok by blast
  from Cons have "\<exists>r. grad_final B L alpha n ks dkdt (grad[k := dmul g (Fin (- (1 / 2)))]) = Inr r"
    by simp
  with Cons.prems show ?case by (simp add: g)
qed


lemma grad_at_unique: "grad_at u k x kk i j w \<Longrightarrow> grad_at u k x kk i j w' \<Longrightarrow> w = w'"
  by (auto simp: grad_at_def)

lemma grad_at_commute: "grad_at u k x kk i j w = grad_at u k x kk j i w"
  by (simp add: grad_at_def gradient_commute [of u k "x ! i"])

text \<open>
  C2. On a computed Gaussian process with rectangular stored inputs and a kernel with
  enough parameters, for a target vector \<open>y\<close> as long as the stored training set and a
  factorization that reports success, \<open>gradlnlikelihood\<close> returns (without a fault, and
  leaving the instance as it is) a vector of \<open>npars\<close> entries. Entry \<open>k\<close> is
  \<open>-0.5 * (trace (solve dK\<^sub>k) - alpha\<^sup>T dK\<^sub>k alpha)\<close>, where \<open>alpha\<close> is the stored
  factorization's solve of \<open>y\<close> (a vector as long as \<open>y\<close>), the solve of a matrix is the
  stored factorization's too, and \<open>dK\<^sub>k\<close> is a symmetric \<open>n\<close>-by-\<open>n\<close> matrix whose entry
  \<open>(a, b)\<close>, on the diagonal as well, is component \<open>k\<close> of the kernel gradient at rows
  \<open>a\<close> and \<open>b\<close> of the stored inputs.
\<close>

theorem gradlnlikelihood_value:
  assumes "gp_computed gp" and "length y = length (gp_x gp)" and "ldlt_success B (gp_L gp)"
    and "\<forall>r\<in>set (gp_x gp). length r = d" and "kernel_ok (gp_kernel gp)"
    and "alpha = ldlt_solve B (gp_L gp) y" and "length alpha = length y"
  shows "\<exists>grad dK. gradlnlikelihood B u gp y = Inr (grad, gp)
     \<and> length grad = npars (gp_kernel gp) \<and> length dK = npars (gp_kernel gp)
     \<and> (\<forall>k<npars (gp_kernel gp).
          square (length y) (dK ! k)
          \<and> (\<forall>a<length y. \<forall>b<length y.
                dK ! k ! a ! b = dK ! k ! b ! a
              \<and> grad_at u (gp_kernel gp) (gp_x gp) k a b (dK ! k ! a ! b))
          \<and> grad ! k = dmul (Fin (- (1 / 2)))
                (dsub (mtrace (ldlt_solve_matrix B (gp_L gp) (dK ! k)))
                      (quadform alpha (dK ! k))))"
proof -
  let ?k = "gp_kernel gp" and ?x = "gp_x gp" and ?n = "length y" and ?L = "gp_L gp"
  let ?np = "npars ?k"
  let ?ga = "VectorXd ?np u"
  let ?da = "replicate ?np (MatrixXd ?n ?n u)"
  have ev: "\<forall>i<?n. \<forall>j<?n. \<exists>g. gradient u ?k (?x ! i) (?x ! j) = Inr g"
    using assms(2,4,5) by (auto intro!: gradient_ok)
  have "\<forall>i\<in>set [0..<?n]. i < ?n" by simp
  from grad_rows_ok [OF ev this, of ?ga ?da]
  obtain r where r: "grad_rows u ?k ?x ?n [0..<?n] (?ga, ?da) = Inr r" ..
  obtain gb D where rp: "r = (gb, D)" by (cases r)
  have lda: "length ?da = ?np" by simp
  have sqa: "\<forall>k<?np. square ?n (?da ! k)" by (simp add: square_MatrixXd)
  have lga: "length ?ga = ?np" by (simp add: VectorXd_def)
  note R = grad_rows_result [OF r [unfolded rp] lda sqa lga]
  have lgb: "length gb = ?np" and lD: "length D = ?np" using R by simp_all
  have sqD: "square ?n (D ! k)" if "k < ?np" for k using R that by simp
  have ent: "grad_at u ?k ?x k (min a b) (max a b) (D ! k ! a ! b)"
    if "k < ?np" "a < ?n" "b < ?n" for k a b
    using R that by simp
  have fin: "\<forall>k\<in>set [0..<?np]. k < length gb
      \<and> (\<forall>i<?n. i < length alpha \<and> length (D ! k ! i) = length alpha)"
    using lgb assms(7) sqD by (simp add: square_row)
  obtain grad where grad: "grad_final B ?L alpha ?n [0..<?np] D gb = Inr grad"
    using grad_final_ok [OF fin, of B ?L] by blast
  note G = grad_final_result [OF grad distinct_upt]
  have run: "gradlnlikelihood B u gp y = Inr (grad, gp)"
    using assms(1,2,3,6) r rp grad by (simp add: gradlnlikelihood_def Let_def)
  have lgrad: "length grad = ?np" using G lgb by simp
  have val: "grad ! k = dmul (Fin (- (1 / 2)))
                (dsub (mtrace (ldlt_solve_matrix B ?L (D ! k))) (quadform alpha (D ! k)))"
    if k: "k < ?np" for k
  proof -
    have "length (D ! k) = ?n" using sqD [OF k] by (rule square_length)
    then have "dsum (map (\<lambda>i. dmul (alpha ! i) (dsum (map2 dmul (D ! k ! i) alpha))) [0..<?n])
        = quadform alpha (D ! k)"
      using assms(7) by (intro quadform_upt) simp_all
    then show ?thesis using G k lgb by simp
  qed
  have sym: "D ! k ! a ! b = D ! k ! b ! a \<and> grad_at u ?k ?x k a b (D ! k ! a ! b)"
    if k: "k < ?np" and ab: "a < ?n" "b < ?n" for k a b
  proof -
    have e1: "grad_at u ?k ?x k (min a b) (max a b) (D ! k ! a ! b)" using ent k ab by simp
    have e2: "grad_at u ?k ?x k (min a b) (max a b) (D ! k ! b ! a)"
      using ent [OF k ab(2) ab(1)] by (simp add: min.commute max.commute)
    have s: "D ! k ! a ! b = D ! k ! b ! a" using e1 e2 by (rule grad_at_unique)
    have "grad_at u ?k ?x k a b (D ! k ! a ! b)"
    proof (cases "a \<le> b")
      case True
      then show ?thesis using e1 by (simp add: min_def max_def)
    next
      case False
      then have "grad_at u ?k ?x k b a (D ! k ! a ! b)" using e1 by (simp add: min_def max_def)
      then show ?thesis by (simp add: grad_at_commute [of u ?k ?x k a b])
    qed
    with s show ?thesis by simp
  qed
  show ?thesis
    using run lgrad lD sqD sym val by blast
qed

theorem gradlnlikelihood_value_witness:
  "kernel_ok (IsotropicGaussianKernel [Fin 1, Fin 1])
   \<and> gradlnlikelihood diag_ldlt (\<lambda>i j. NaN)
       \<lparr>gp_kernel = IsotropicGaussianKernel [Fin 1, Fin 1], gp_info = 0,
        gp_computed = True, gp_x = [[Fin 0]], gp_L = [[Fin 1]]\<rparr> [Fin 2]
     = Inr ([Fin (3 / 2), Fin 0],
         \<lparr>gp_kernel = IsotropicGaussianKernel [Fin 1, Fin 1], gp_info = 0,
          gp_computed = True, gp_x = [[Fin 0]], gp_L = [[Fin 1]]\<rparr>)"
  using gradlnlikelihood_value [of
      "\<lparr>gp_kernel = IsotropicGaussianKernel [Fin 1, Fin 1], gp_info = 0,
        gp_computed = True, gp_x = [[Fin 0]], gp_L = [[Fin 1]]\<rparr>"
      "[Fin 2]" diag_ldlt 1 "[Fin 2]" "\<lambda>i j. NaN"]
  by (simp add: run_defs)

end
